theory Spec2Isabelle
  imports Main
begin

section \<open>The draft slice: data model\<close>

text \<open>
  The slice of the store that tracks a live draft (the file that calls
  \<^verbatim>\<open>createSlice({ name: 'draft', ... })\<close>). Identifiers (player ids, team ids,
  positions) are strings, pick numbers are integers. A JavaScript object used as a
  dictionary (\<^verbatim>\<open>state.teams\<close>, \<^verbatim>\<open>team.roster\<close>) is the partial map of its own properties;
  a field that may be \<^verbatim>\<open>null\<close> or \<^verbatim>\<open>undefined\<close> is an option.
\<close>

record Player =
  player_id :: string
  player_name :: string
  position :: string

record Pick =
  pick_number :: int
  team_id :: string
  player :: "Player option"

record Team =
  roster :: "string \<rightharpoonup> Player list"

text \<open>
  \<^verbatim>\<open>selectedplayerdetails\<close> is \<^verbatim>\<open>{ player, history, loading }\<close>, with \<^verbatim>\<open>error\<close> added by the
  rejected handler. Its fields \<^verbatim>\<open>player\<close> and \<^verbatim>\<open>error\<close> are prefixed here, since the
  names are taken by the board slot and by the slice. The history payload is opaque
  to the slice and is kept as text.
\<close>

type_synonym History = string

record Details =
  details_player :: "Player option"
  history :: "History option"
  loading :: bool
  details_error :: "string option"

datatype Status = Idle | Loading | Succeeded | Failed

record draftstate =
  board :: "Pick list"
  teams :: "string \<rightharpoonup> Team"
  availableplayers :: "Player list"
  currentpickindex :: int
  totalpicks :: int
  selectedplayerdetails :: "Details option"
  status :: Status
  error :: "string option"

definition initialstate :: draftstate where
  "initialstate =
     \<lparr> board = [], teams = Map.empty, availableplayers = [], currentpickindex = 0,
       totalpicks = 0, selectedplayerdetails = None, status = Idle, error = None \<rparr>"

subsection \<open>Actions\<close>

text \<open>
  The payload of \<^verbatim>\<open>processpick\<close> is \<^verbatim>\<open>{ pick_number, player }\<close>, where \<^verbatim>\<open>player\<close> is a player
  record (the reducer reads \<^verbatim>\<open>player.player_id\<close> and \<^verbatim>\<open>player.position\<close>).
\<close>

record pickevent =
  ev_pick_number :: int
  ev_player :: Player

text \<open>The payload of \<^verbatim>\<open>fetchinitialstate.fulfilled\<close>: the response of the state endpoint.\<close>

record snapshot =
  snap_board :: "Pick list"
  snap_teams :: "string \<rightharpoonup> Team"
  available_players :: "Player list"
  current_pick_index :: int
  total_picks :: int

text \<open>
  An action of the \<^verbatim>\<open>fetchplayerhistory\<close> thunk carries the player id the thunk was
  called with (\<^verbatim>\<open>action.meta.arg\<close>) and a payload: the history when fulfilled, the
  rejection value (possibly undefined) when rejected.
\<close>

record 'a thunkaction =
  meta_arg :: string
  payload :: 'a

text \<open>The one exception a reducer of the slice can raise: reading a property of \<^verbatim>\<open>undefined\<close>.\<close>

datatype exn = TypeError

section \<open>The reducers\<close>

text \<open>
  \<^verbatim>\<open>Array.prototype.findIndex\<close>: the index of the first element that satisfies the
  predicate, \<open>-1\<close> when there is none. The loop over the indices is the recursion on
  the rest of the array, with the current index as an argument.
\<close>

fun findindex_from :: "('a \<Rightarrow> bool) \<Rightarrow> 'a list \<Rightarrow> int \<Rightarrow> int" where
  "findindex_from P [] i = - 1"
| "findindex_from P (x # xs) i = (if P x then i else findindex_from P xs (i + 1))"

definition findindex :: "('a \<Rightarrow> bool) \<Rightarrow> 'a list \<Rightarrow> int" where
  "findindex P xs = findindex_from P xs 0"

text \<open>
  Reading a property of a plain object, \<^verbatim>\<open>obj[key]\<close>. \<^verbatim>\<open>state.teams\<close> and \<^verbatim>\<open>team.roster\<close> are
  plain objects: the read finds the object's own property when there is one, and otherwise
  goes to \<^verbatim>\<open>Object.prototype\<close>, which holds the properties named below (functions, and
  the accessor \<^verbatim>\<open>__proto__\<close>): all of them truthy, none of them a team or an array. Any
  other key reads as \<^verbatim>\<open>undefined\<close>. The maps of the state hold the own properties.
\<close>

definition object_prototype_keys :: "string list" where
  "object_prototype_keys =
     [''constructor'', ''__defineGetter__'', ''__defineSetter__'', ''hasOwnProperty'',
      ''__lookupGetter__'', ''__lookupSetter__'', ''isPrototypeOf'', ''propertyIsEnumerable'',
      ''toString'', ''valueOf'', ''__proto__'', ''toLocaleString'']"

datatype 'a property = Own 'a | Inherited | Absent

definition object_get :: "(string \<rightharpoonup> 'a) \<Rightarrow> string \<Rightarrow> 'a property" where
  "object_get obj key =
     (case obj key of
        Some v \<Rightarrow> Own v
      | None \<Rightarrow> if key \<in> set object_prototype_keys then Inherited else Absent)"

text \<open>
  \<^verbatim>\<open>processpick\<close>, step by step as the source numbers them.
  Step 1 writes the player into the board slot found by \<^verbatim>\<open>findindex\<close>, under the guard
  \<^verbatim>\<open>pickindexonboard !== -1\<close>. Step 2 filters the pool. Step 3 reads
  \<^verbatim>\<open>state.board[pickindexonboard].team_id\<close> with no guard: when the index is \<open>-1\<close> the
  element is \<^verbatim>\<open>undefined\<close> and the read throws a \<^verbatim>\<open>TypeError\<close>. Then \<^verbatim>\<open>state.teams[teamid]\<close>
  is read: \<^verbatim>\<open>undefined\<close> skips the roster; an inherited property passes the test
  \<^verbatim>\<open>if (team)\<close>, has no \<^verbatim>\<open>roster\<close>, and the read \<^verbatim>\<open>team.roster[player.position]\<close> throws; for a
  team of the state, \<^verbatim>\<open>team.roster[player.position]\<close> is read: \<^verbatim>\<open>undefined\<close> creates the
  array and pushes, an array of the roster is pushed on, and an inherited property is
  truthy and has no \<^verbatim>\<open>push\<close>, so the call throws. Step 4 assigns the pick number to
  \<^verbatim>\<open>currentpickindex\<close>. The reducer runs on a draft of the state: an exception leaves no
  successor state (\<open>Inl\<close>).
\<close>

definition processpick :: "draftstate \<Rightarrow> pickevent \<Rightarrow> exn + draftstate" where
  "processpick state action =
     (let pickindexonboard =
            findindex (\<lambda>p. pick_number p = ev_pick_number action) (board state);
          board1 =
            (if pickindexonboard \<noteq> - 1
             then (board state)[nat pickindexonboard :=
                    (board state ! nat pickindexonboard)\<lparr>player := Some (ev_player action)\<rparr>]
             else board state);
          availableplayers1 =
            filter (\<lambda>p. player_id p \<noteq> player_id (ev_player action)) (availableplayers state)
      in if pickindexonboard = - 1 then Inl TypeError
         else
           let teamid = team_id (board1 ! nat pickindexonboard);
               teams1 =
                 (case object_get (teams state) teamid of
                    Absent \<Rightarrow> Inr (teams state)
                  | Inherited \<Rightarrow> Inl TypeError
                  | Own team \<Rightarrow>
                      (case object_get (roster team) (position (ev_player action)) of
                         Absent \<Rightarrow>
                           Inr ((teams state)(teamid \<mapsto>
                                  team\<lparr>roster := (roster team)(position (ev_player action) \<mapsto>
                                    [] @ [ev_player action])\<rparr>))
                       | Inherited \<Rightarrow> Inl TypeError
                       | Own ps \<Rightarrow>
                           Inr ((teams state)(teamid \<mapsto>
                                  team\<lparr>roster := (roster team)(position (ev_player action) \<mapsto>
                                    ps @ [ev_player action])\<rparr>))))
           in case teams1 of
                Inl x \<Rightarrow> Inl x
              | Inr t \<Rightarrow>
                  Inr (state\<lparr>board := board1, availableplayers := availableplayers1,
                            teams := t, currentpickindex := ev_pick_number action\<rparr>))"

definition clearselectedplayer :: "draftstate \<Rightarrow> draftstate" where
  "clearselectedplayer state = state\<lparr>selectedplayerdetails := None\<rparr>"

definition fetchinitialstate_pending :: "draftstate \<Rightarrow> draftstate" where
  "fetchinitialstate_pending state = state\<lparr>status := Loading\<rparr>"

definition fetchinitialstate_fulfilled :: "draftstate \<Rightarrow> snapshot \<Rightarrow> draftstate" where
  "fetchinitialstate_fulfilled state p =
     state\<lparr>status := Succeeded, board := snap_board p, teams := snap_teams p,
           availableplayers := available_players p,
           currentpickindex := current_pick_index p, totalpicks := total_picks p\<rparr>"

text \<open>The argument is \<^verbatim>\<open>action.error.message\<close>, which may be undefined.\<close>

definition fetchinitialstate_rejected :: "draftstate \<Rightarrow> string option \<Rightarrow> draftstate" where
  "fetchinitialstate_rejected state message = state\<lparr>status := Failed, error := message\<rparr>"

text \<open>\<^verbatim>\<open>Array.prototype.find\<close> is \<^const>\<open>List.find\<close>: the first match, or nothing.\<close>

definition fetchplayerhistory_pending :: "draftstate \<Rightarrow> 'a thunkaction \<Rightarrow> draftstate" where
  "fetchplayerhistory_pending state action =
     (let playerfrompool = List.find (\<lambda>p. player_id p = meta_arg action) (availableplayers state)
      in state\<lparr>selectedplayerdetails :=
            Some \<lparr> details_player = playerfrompool, history = None, loading = True,
                   details_error = None \<rparr>\<rparr>)"

definition fetchplayerhistory_fulfilled :: "draftstate \<Rightarrow> History thunkaction \<Rightarrow> draftstate" where
  "fetchplayerhistory_fulfilled state action =
     (case selectedplayerdetails state of
        None \<Rightarrow> state
      | Some d \<Rightarrow>
          state\<lparr>selectedplayerdetails := Some (d\<lparr>history := Some (payload action), loading := False\<rparr>)\<rparr>)"

definition fetchplayerhistory_rejected ::
    "draftstate \<Rightarrow> string option thunkaction \<Rightarrow> draftstate" where
  "fetchplayerhistory_rejected state action =
     (case selectedplayerdetails state of
        None \<Rightarrow> state
      | Some d \<Rightarrow>
          state\<lparr>selectedplayerdetails := Some (d\<lparr>loading := False, details_error := payload action\<rparr>)\<rparr>)"

text \<open>
  The store calls the reducer for each dispatched action. When the reducer throws, the
  draft is discarded and the store keeps the state it had; the exception goes to the
  caller of \<^verbatim>\<open>dispatch\<close>. \<open>pick_trace\<close> lists the states the store goes through
  while a sequence of pick events is dispatched, the starting state first.
\<close>

definition dispatch_pick :: "draftstate \<Rightarrow> pickevent \<Rightarrow> draftstate" where
  "dispatch_pick state action =
     (case processpick state action of Inl _ \<Rightarrow> state | Inr state' \<Rightarrow> state')"

fun pick_trace :: "draftstate \<Rightarrow> pickevent list \<Rightarrow> draftstate list" where
  "pick_trace state [] = [state]"
| "pick_trace state (e # es) = state # pick_trace (dispatch_pick state e) es"

section \<open>Notions of the specification\<close>

text \<open>The board slot a pick number names: the first slot that carries the number.\<close>

definition board_slot :: "draftstate \<Rightarrow> int \<Rightarrow> Pick option" where
  "board_slot state n = List.find (\<lambda>p. pick_number p = n) (board state)"

text \<open>
  The players a team holds at a position (none when the team or the position is
  absent), and how often a player id occurs in a list of players.
\<close>

definition roster_at :: "draftstate \<Rightarrow> string \<Rightarrow> string \<Rightarrow> Player list" where
  "roster_at state tid pos =
     (case teams state tid of
        None \<Rightarrow> []
      | Some team \<Rightarrow> (case roster team pos of None \<Rightarrow> [] | Some ps \<Rightarrow> ps))"

definition count_id :: "string \<Rightarrow> Player list \<Rightarrow> nat" where
  "count_id pid ps = length (filter (\<lambda>p. player_id p = pid) ps)"

text \<open>
  The partition invariant: a player id occurs at most once in the pool and at most once
  in any roster list, never in the pool and on a roster, and never in two roster lists.
  A player is known when the id occurs in the pool or on some roster.
\<close>

definition partition_inv :: "draftstate \<Rightarrow> bool" where
  "partition_inv state =
     (\<forall>pid.
        count_id pid (availableplayers state) \<le> 1 \<and>
        (\<forall>tid pos. count_id pid (roster_at state tid pos) \<le> 1) \<and>
        (\<forall>tid pos. 0 < count_id pid (availableplayers state) \<longrightarrow>
                   count_id pid (roster_at state tid pos) = 0) \<and>
        (\<forall>tid pos tid' pos'.
           0 < count_id pid (roster_at state tid pos) \<and>
           0 < count_id pid (roster_at state tid' pos') \<longrightarrow> tid = tid' \<and> pos = pos'))"

definition known_player :: "draftstate \<Rightarrow> string \<Rightarrow> bool" where
  "known_player state pid =
     (0 < count_id pid (availableplayers state) \<or>
      (\<exists>tid pos. 0 < count_id pid (roster_at state tid pos)))"

text \<open>A well-formed state: the partition holds and every board slot names a known team.\<close>

definition well_formed :: "draftstate \<Rightarrow> bool" where
  "well_formed state =
     (partition_inv state \<and> (\<forall>p \<in> set (board state). teams state (team_id p) \<noteq> None))"

text \<open>
  The inputs on which step 3 throws although the slot exists: the slot's team id, or the
  player's position in the team's roster, is not an own property and names a property
  of \<^verbatim>\<open>Object.prototype\<close>.
\<close>

definition roster_step_throws :: "draftstate \<Rightarrow> Pick \<Rightarrow> Player \<Rightarrow> bool" where
  "roster_step_throws state slot p =
     (case object_get (teams state) (team_id slot) of
        Absent \<Rightarrow> False
      | Inherited \<Rightarrow> True
      | Own team \<Rightarrow> object_get (roster team) (position p) = Inherited)"

text \<open>
  What a reducer lets an observer see of a problem: the exception it throws, or an
  \<^verbatim>\<open>error\<close> field it writes. The slice has no other output.
\<close>

definition reported :: "draftstate \<Rightarrow> exn + draftstate \<Rightarrow> bool" where
  "reported state result =
     (case result of Inl _ \<Rightarrow> True | Inr state' \<Rightarrow> error state' \<noteq> error state)"

section \<open>The scenario of the specification\<close>

text \<open>
  A board of three slots for the teams T1 and T2, and three players in the pool; the
  states reached from it by the pick events used below.
\<close>

definition p1 :: Player where
  "p1 = \<lparr> player_id = ''p1'', player_name = ''Player One'', position = ''QB'' \<rparr>"

definition p2 :: Player where
  "p2 = \<lparr> player_id = ''p2'', player_name = ''Player Two'', position = ''RB'' \<rparr>"

definition p3 :: Player where
  "p3 = \<lparr> player_id = ''p3'', player_name = ''Player Three'', position = ''WR'' \<rparr>"

definition scenario_snapshot :: snapshot where
  "scenario_snapshot =
     \<lparr> snap_board = [\<lparr>pick_number = 1, team_id = ''T1'', player = None\<rparr>,
                     \<lparr>pick_number = 2, team_id = ''T2'', player = None\<rparr>,
                     \<lparr>pick_number = 3, team_id = ''T1'', player = None\<rparr>],
       snap_teams = [''T1'' \<mapsto> \<lparr>roster = Map.empty\<rparr>, ''T2'' \<mapsto> \<lparr>roster = Map.empty\<rparr>],
       available_players = [p1, p2, p3],
       current_pick_index = 0,
       total_picks = 3 \<rparr>"

definition scenario_loaded :: draftstate where
  "scenario_loaded =
     fetchinitialstate_fulfilled (fetchinitialstate_pending initialstate) scenario_snapshot"

definition pick1 :: pickevent where
  "pick1 = \<lparr> ev_pick_number = 1, ev_player = p1 \<rparr>"

definition pick2 :: pickevent where
  "pick2 = \<lparr> ev_pick_number = 2, ev_player = p2 \<rparr>"

text \<open>After \<open>pick1\<close>, and after \<open>pick1\<close> delivered a second time.\<close>

definition scenario_once :: draftstate where
  "scenario_once =
     \<lparr> board = [\<lparr>pick_number = 1, team_id = ''T1'', player = Some p1\<rparr>,
                \<lparr>pick_number = 2, team_id = ''T2'', player = None\<rparr>,
                \<lparr>pick_number = 3, team_id = ''T1'', player = None\<rparr>],
       teams = [''T1'' \<mapsto> \<lparr>roster = [''QB'' \<mapsto> [p1]]\<rparr>, ''T2'' \<mapsto> \<lparr>roster = Map.empty\<rparr>],
       availableplayers = [p2, p3], currentpickindex = 1, totalpicks = 3,
       selectedplayerdetails = None, status = Succeeded, error = None \<rparr>"

definition scenario_twice :: draftstate where
  "scenario_twice =
     \<lparr> board = [\<lparr>pick_number = 1, team_id = ''T1'', player = Some p1\<rparr>,
                \<lparr>pick_number = 2, team_id = ''T2'', player = None\<rparr>,
                \<lparr>pick_number = 3, team_id = ''T1'', player = None\<rparr>],
       teams = [''T1'' \<mapsto> \<lparr>roster = [''QB'' \<mapsto> [p1, p1]]\<rparr>, ''T2'' \<mapsto> \<lparr>roster = Map.empty\<rparr>],
       availableplayers = [p2, p3], currentpickindex = 1, totalpicks = 3,
       selectedplayerdetails = None, status = Succeeded, error = None \<rparr>"

text \<open>After \<open>pick2\<close> alone, and after \<open>pick2\<close> followed by the late \<open>pick1\<close>.\<close>

definition scenario_second :: draftstate where
  "scenario_second =
     \<lparr> board = [\<lparr>pick_number = 1, team_id = ''T1'', player = None\<rparr>,
                \<lparr>pick_number = 2, team_id = ''T2'', player = Some p2\<rparr>,
                \<lparr>pick_number = 3, team_id = ''T1'', player = None\<rparr>],
       teams = [''T1'' \<mapsto> \<lparr>roster = Map.empty\<rparr>, ''T2'' \<mapsto> \<lparr>roster = [''RB'' \<mapsto> [p2]]\<rparr>],
       availableplayers = [p1, p3], currentpickindex = 2, totalpicks = 3,
       selectedplayerdetails = None, status = Succeeded, error = None \<rparr>"

definition scenario_late :: draftstate where
  "scenario_late =
     \<lparr> board = [\<lparr>pick_number = 1, team_id = ''T1'', player = Some p1\<rparr>,
                \<lparr>pick_number = 2, team_id = ''T2'', player = Some p2\<rparr>,
                \<lparr>pick_number = 3, team_id = ''T1'', player = None\<rparr>],
       teams = [''T1'' \<mapsto> \<lparr>roster = [''QB'' \<mapsto> [p1]]\<rparr>,
                ''T2'' \<mapsto> \<lparr>roster = [''RB'' \<mapsto> [p2]]\<rparr>],
       availableplayers = [p3], currentpickindex = 1, totalpicks = 3,
       selectedplayerdetails = None, status = Succeeded, error = None \<rparr>"

text \<open>After \<open>pick1\<close>, a second event for slot 1 that carries another player.\<close>

definition pick1_other :: pickevent where
  "pick1_other = \<lparr> ev_pick_number = 1, ev_player = p3 \<rparr>"

definition scenario_overwritten :: draftstate where
  "scenario_overwritten =
     \<lparr> board = [\<lparr>pick_number = 1, team_id = ''T1'', player = Some p3\<rparr>,
                \<lparr>pick_number = 2, team_id = ''T2'', player = None\<rparr>,
                \<lparr>pick_number = 3, team_id = ''T1'', player = None\<rparr>],
       teams = [''T1'' \<mapsto> \<lparr>roster = [''QB'' \<mapsto> [p1], ''WR'' \<mapsto> [p3]]\<rparr>,
                ''T2'' \<mapsto> \<lparr>roster = Map.empty\<rparr>],
       availableplayers = [p2], currentpickindex = 1, totalpicks = 3,
       selectedplayerdetails = None, status = Succeeded, error = None \<rparr>"

text \<open>An event for a pick number that is not on the board.\<close>

definition pick99 :: pickevent where
  "pick99 = \<lparr> ev_pick_number = 99, ev_player = p1 \<rparr>"

text \<open>A state whose only slot belongs to a team that \<^verbatim>\<open>teams\<close> does not hold, and its successor.\<close>

definition orphan_state :: draftstate where
  "orphan_state =
     \<lparr> board = [\<lparr>pick_number = 1, team_id = ''T9'', player = None\<rparr>],
       teams = [''T1'' \<mapsto> \<lparr>roster = Map.empty\<rparr>],
       availableplayers = [p1, p2], currentpickindex = 0, totalpicks = 1,
       selectedplayerdetails = None, status = Succeeded, error = None \<rparr>"

definition orphan_picked :: draftstate where
  "orphan_picked =
     \<lparr> board = [\<lparr>pick_number = 1, team_id = ''T9'', player = Some p1\<rparr>],
       teams = [''T1'' \<mapsto> \<lparr>roster = Map.empty\<rparr>],
       availableplayers = [p2], currentpickindex = 1, totalpicks = 1,
       selectedplayerdetails = None, status = Succeeded, error = None \<rparr>"

text \<open>
  A state whose only slot carries the team id \<^verbatim>\<open>constructor\<close>, and an event whose player
  has the position \<^verbatim>\<open>constructor\<close>: names of inherited properties.
\<close>

definition inherited_team_state :: draftstate where
  "inherited_team_state =
     \<lparr> board = [\<lparr>pick_number = 1, team_id = ''constructor'', player = None\<rparr>],
       teams = [''T1'' \<mapsto> \<lparr>roster = Map.empty\<rparr>],
       availableplayers = [p1, p2], currentpickindex = 0, totalpicks = 1,
       selectedplayerdetails = None, status = Succeeded, error = None \<rparr>"

definition pick1_inherited_position :: pickevent where
  "pick1_inherited_position =
     \<lparr> ev_pick_number = 1,
       ev_player = \<lparr> player_id = ''p1'', player_name = ''Player One'',
                     position = ''constructor'' \<rparr> \<rparr>"

text \<open>The actions of two history fetches, for \<open>p1\<close> and for \<open>p2\<close>.\<close>

definition select_p1 :: "unit thunkaction" where
  "select_p1 = \<lparr> meta_arg = ''p1'', payload = () \<rparr>"

definition select_p2 :: "unit thunkaction" where
  "select_p2 = \<lparr> meta_arg = ''p2'', payload = () \<rparr>"

definition history_p1 :: "History thunkaction" where
  "history_p1 = \<lparr> meta_arg = ''p1'', payload = ''history of p1'' \<rparr>"

section \<open>Properties\<close>

subsection \<open>The index search\<close>


lemma findindex_from_map:
  "findindex_from (\<lambda>x. Q (f x)) xs i = findindex_from Q (map f xs) i"
  by (induction xs arbitrary: i) simp_all

lemma findindex_from_lower: "0 \<le> i \<Longrightarrow> findindex_from P xs i \<noteq> - 1 \<Longrightarrow> i \<le> findindex_from P xs i"
proof (induction xs arbitrary: i)
  case Nil
  then show ?case by simp
next
  case (Cons x xs)
  show ?case
  proof (cases "P x")
    case True
    then show ?thesis by simp
  next
    case False
    with Cons.prems have "findindex_from P xs (i + 1) \<noteq> - 1" by simp
    with Cons.IH [of "i + 1"] Cons.prems have "i + 1 \<le> findindex_from P xs (i + 1)" by simp
    with False show ?thesis by simp
  qed
qed

lemma findindex_from_found:
  "0 \<le> i \<Longrightarrow> findindex_from P xs i \<noteq> - 1 \<Longrightarrow>
     nat (findindex_from P xs i - i) < length xs \<and> P (xs ! nat (findindex_from P xs i - i))"
proof (induction xs arbitrary: i)
  case Nil
  then show ?case by simp
next
  case (Cons x xs)
  show ?case
  proof (cases "P x")
    case True
    then show ?thesis by simp
  next
    case False
    with Cons.prems have ne: "findindex_from P xs (i + 1) \<noteq> - 1" by simp
    from Cons.prems have i1: "0 \<le> i + 1" by simp
    from findindex_from_lower [OF i1 ne] have low: "i + 1 \<le> findindex_from P xs (i + 1)" .
    from Cons.IH [OF i1 ne]
    have ih: "nat (findindex_from P xs (i + 1) - (i + 1)) < length xs"
      "P (xs ! nat (findindex_from P xs (i + 1) - (i + 1)))" by simp_all
    from low have "nat (findindex_from P xs (i + 1) - i) = Suc (nat (findindex_from P xs (i + 1) - (i + 1)))"
      by linarith
    with ih False show ?thesis by simp
  qed
qed

lemma findindex_from_none: "0 \<le> i \<Longrightarrow> (findindex_from P xs i = - 1) = (\<forall>x \<in> set xs. \<not> P x)"
  by (induction xs arbitrary: i) auto

lemma findindex_from_find:
  "0 \<le> i \<Longrightarrow> List.find P xs =
     (if findindex_from P xs i = - 1 then None else Some (xs ! nat (findindex_from P xs i - i)))"
proof (induction xs arbitrary: i)
  case Nil
  then show ?case by simp
next
  case (Cons x xs)
  show ?case
  proof (cases "P x")
    case True
    with Cons.prems show ?thesis by simp
  next
    case False
    from Cons.prems have i1: "0 \<le> i + 1" by simp
    show ?thesis
    proof (cases "findindex_from P xs (i + 1) = - 1")
      case True
      with False Cons.IH [OF i1] show ?thesis by simp
    next
      case ne: False
      from findindex_from_lower [OF i1 ne] have low: "i + 1 \<le> findindex_from P xs (i + 1)" .
      then have "nat (findindex_from P xs (i + 1) - i) = Suc (nat (findindex_from P xs (i + 1) - (i + 1)))"
        by linarith
      with False ne Cons.IH [OF i1] show ?thesis by simp
    qed
  qed
qed

lemma find_cases:
  "case List.find P xs of None \<Rightarrow> \<forall>x \<in> set xs. \<not> P x | Some x \<Rightarrow> x \<in> set xs \<and> P x"
  by (induction xs) (auto split: option.splits)

lemma findindex_found:
  "findindex P xs \<noteq> - 1 \<Longrightarrow> nat (findindex P xs) < length xs \<and> P (xs ! nat (findindex P xs))"
  using findindex_from_found [of 0 P xs] by (simp add: findindex_def)

lemma findindex_none: "(findindex P xs = - 1) = (\<forall>x \<in> set xs. \<not> P x)"
  using findindex_from_none [of 0 P xs] by (simp add: findindex_def)

lemma find_findindex:
  "List.find P xs = (if findindex P xs = - 1 then None else Some (xs ! nat (findindex P xs)))"
  using findindex_from_find [of 0 P xs] by (simp add: findindex_def)

lemma findindex_pick_number:
  "map pick_number xs = map pick_number ys \<Longrightarrow>
     findindex (\<lambda>p. pick_number p = n) xs = findindex (\<lambda>p. pick_number p = n) ys"
  using findindex_from_map [of "\<lambda>k. k = n" pick_number xs 0]
        findindex_from_map [of "\<lambda>k. k = n" pick_number ys 0]
  by (simp add: findindex_def)

lemma map_pick_number_update:
  "i < length xs \<Longrightarrow> map pick_number (xs[i := (xs ! i)\<lparr>player := q\<rparr>]) = map pick_number xs"
  by (simp add: list_eq_iff_nth_eq nth_list_update)

subsection \<open>What a step of the pick reducer does\<close>

lemma object_get_own: "obj key = Some v \<Longrightarrow> object_get obj key = Own v"
  by (simp add: object_get_def)

lemma object_get_Own_iff: "(object_get obj key = Own v) = (obj key = Some v)"
  by (simp add: object_get_def split: option.splits)

lemma object_get_not_own: "object_get obj key \<noteq> Own v \<Longrightarrow> obj key \<noteq> Some v"
  by (simp add: object_get_Own_iff)

lemma object_get_None: "object_get obj key = Absent \<or> object_get obj key = Inherited \<Longrightarrow> obj key = None"
  by (auto simp: object_get_def split: option.splits)

lemma processpick_unfold:
  assumes "findindex (\<lambda>p. pick_number p = ev_pick_number e) (board s) \<noteq> - 1"
  defines "k \<equiv> nat (findindex (\<lambda>p. pick_number p = ev_pick_number e) (board s))"
  shows "processpick s e =
           (if roster_step_throws s (board s ! k) (ev_player e) then Inl TypeError
            else Inr (s\<lparr>board := (board s)[k := (board s ! k)\<lparr>player := Some (ev_player e)\<rparr>],
                 availableplayers :=
                   filter (\<lambda>p. player_id p \<noteq> player_id (ev_player e)) (availableplayers s),
                 teams :=
                   (case teams s (team_id (board s ! k)) of
                      None \<Rightarrow> teams s
                    | Some team \<Rightarrow>
                        (teams s)(team_id (board s ! k) \<mapsto>
                           team\<lparr>roster := (roster team)(position (ev_player e) \<mapsto>
                             (case roster team (position (ev_player e)) of
                                None \<Rightarrow> [] | Some ps \<Rightarrow> ps) @ [ev_player e])\<rparr>)),
                 currentpickindex := ev_pick_number e\<rparr>))"
proof -
  from findindex_found [OF assms(1)] have lt: "k < length (board s)" by (simp add: k_def)
  let ?tid = "team_id (board s ! k)"
  let ?pos = "position (ev_player e)"
  show ?thesis
  proof (cases "object_get (teams s) ?tid")
    case (Own team)
    then have t: "teams s ?tid = Some team" by (simp add: object_get_Own_iff)
    show ?thesis
    proof (cases "object_get (roster team) ?pos")
      case (Own ps)
      then have "roster team ?pos = Some ps" by (simp add: object_get_Own_iff)
      with Own \<open>object_get (teams s) ?tid = Own team\<close> t assms(1) lt show ?thesis
        by (simp add: processpick_def Let_def roster_step_throws_def k_def [symmetric])
    next
      case Inherited
      with \<open>object_get (teams s) ?tid = Own team\<close> assms(1) lt show ?thesis
        by (simp add: processpick_def Let_def roster_step_throws_def k_def [symmetric])
    next
      case Absent
      then have "roster team ?pos = None" by (simp add: object_get_None)
      with Absent \<open>object_get (teams s) ?tid = Own team\<close> t assms(1) lt show ?thesis
        by (simp add: processpick_def Let_def roster_step_throws_def k_def [symmetric])
    qed
  next
    case Inherited
    with assms(1) lt show ?thesis
      by (simp add: processpick_def Let_def roster_step_throws_def k_def [symmetric])
  next
    case Absent
    then have "teams s ?tid = None" by (simp add: object_get_None)
    with Absent assms(1) lt show ?thesis
      by (simp add: processpick_def Let_def roster_step_throws_def k_def [symmetric])
  qed
qed

lemma processpick_Inl:
  "(processpick s e = Inl x) =
     (findindex (\<lambda>p. pick_number p = ev_pick_number e) (board s) = - 1 \<or>
      roster_step_throws s
        (board s ! nat (findindex (\<lambda>p. pick_number p = ev_pick_number e) (board s))) (ev_player e))"
proof (cases "findindex (\<lambda>p. pick_number p = ev_pick_number e) (board s) = - 1")
  case True
  then show ?thesis by (cases x) (simp add: processpick_def Let_def)
next
  case False
  then show ?thesis by (cases x) (simp add: processpick_unfold)
qed

lemma processpick_Inr:
  assumes "processpick s e = Inr s'"
  defines "k \<equiv> findindex (\<lambda>p. pick_number p = ev_pick_number e) (board s)"
  shows "k \<noteq> - 1"
    and "nat k < length (board s)"
    and "pick_number (board s ! nat k) = ev_pick_number e"
    and "board s' = (board s)[nat k := (board s ! nat k)\<lparr>player := Some (ev_player e)\<rparr>]"
    and "availableplayers s' = filter (\<lambda>p. player_id p \<noteq> player_id (ev_player e)) (availableplayers s)"
    and "currentpickindex s' = ev_pick_number e"
    and "totalpicks s' = totalpicks s"
    and "selectedplayerdetails s' = selectedplayerdetails s"
    and "status s' = status s"
    and "error s' = error s"
    and "teams s' =
          (case teams s (team_id (board s ! nat k)) of
             None \<Rightarrow> teams s
           | Some team \<Rightarrow>
               (teams s)(team_id (board s ! nat k) \<mapsto>
                  team\<lparr>roster := (roster team)(position (ev_player e) \<mapsto>
                    (case roster team (position (ev_player e)) of None \<Rightarrow> [] | Some ps \<Rightarrow> ps)
                      @ [ev_player e])\<rparr>))"
    and "\<not> roster_step_throws s (board s ! nat k) (ev_player e)"
proof -
  from assms(1) show ne: "k \<noteq> - 1"
    unfolding k_def by (auto simp: processpick_def Let_def split: if_splits)
  from findindex_found [of "\<lambda>p. pick_number p = ev_pick_number e" "board s"] ne
  show lt: "nat k < length (board s)" and "pick_number (board s ! nat k) = ev_pick_number e"
    unfolding k_def by simp_all
  from assms(1) ne show ok: "\<not> roster_step_throws s (board s ! nat k) (ev_player e)"
    unfolding k_def by (auto simp: processpick_unfold split: if_splits)
  from assms(1) ne ok
  have s': "s' = s\<lparr>board := (board s)[nat k := (board s ! nat k)\<lparr>player := Some (ev_player e)\<rparr>],
            availableplayers := filter (\<lambda>p. player_id p \<noteq> player_id (ev_player e)) (availableplayers s),
            teams := (case teams s (team_id (board s ! nat k)) of
             None \<Rightarrow> teams s
           | Some team \<Rightarrow>
               (teams s)(team_id (board s ! nat k) \<mapsto>
                  team\<lparr>roster := (roster team)(position (ev_player e) \<mapsto>
                    (case roster team (position (ev_player e)) of None \<Rightarrow> [] | Some ps \<Rightarrow> ps)
                      @ [ev_player e])\<rparr>)),
            currentpickindex := ev_pick_number e\<rparr>"
    unfolding k_def by (simp add: processpick_unfold)
  show "board s' = (board s)[nat k := (board s ! nat k)\<lparr>player := Some (ev_player e)\<rparr>]"
    by (simp add: s')
  show "availableplayers s' = filter (\<lambda>p. player_id p \<noteq> player_id (ev_player e)) (availableplayers s)"
    by (simp add: s')
  show "currentpickindex s' = ev_pick_number e" by (simp add: s')
  show "totalpicks s' = totalpicks s" by (simp add: s')
  show "selectedplayerdetails s' = selectedplayerdetails s" by (simp add: s')
  show "status s' = status s" by (simp add: s')
  show "error s' = error s" by (simp add: s')
  show "teams s' =
          (case teams s (team_id (board s ! nat k)) of
             None \<Rightarrow> teams s
           | Some team \<Rightarrow>
               (teams s)(team_id (board s ! nat k) \<mapsto>
                  team\<lparr>roster := (roster team)(position (ev_player e) \<mapsto>
                    (case roster team (position (ev_player e)) of None \<Rightarrow> [] | Some ps \<Rightarrow> ps)
                      @ [ev_player e])\<rparr>))"
    by (simp add: s')
qed

lemma processpick_returns:
  assumes "board_slot s (ev_pick_number e) = Some slot"
    and "\<not> roster_step_throws s slot (ev_player e)"
  shows "\<exists>s'. processpick s e = Inr s'"
proof -
  let ?k = "findindex (\<lambda>p. pick_number p = ev_pick_number e) (board s)"
  from assms(1) have found: "?k \<noteq> - 1" and slot: "slot = board s ! nat ?k"
    by (auto simp: board_slot_def find_findindex split: if_splits)
  with assms(2) show ?thesis by (simp add: processpick_unfold)
qed

lemma roster_step_throws_team:
  "team_id slot = team_id slot' \<Longrightarrow> roster_step_throws s slot p = roster_step_throws s slot' p"
  by (simp add: roster_step_throws_def)

lemma processpick_again_returns:
  assumes "processpick s e = Inr s'"
  shows "\<not> roster_step_throws s'
            (board s' ! nat (findindex (\<lambda>p. pick_number p = ev_pick_number e) (board s)))
            (ev_player e)"
proof -
  let ?k = "nat (findindex (\<lambda>p. pick_number p = ev_pick_number e) (board s))"
  let ?tid = "team_id (board s ! ?k)"
  note st = processpick_Inr [OF assms]
  from st(2,4) have tid: "team_id (board s' ! ?k) = ?tid" by simp
  have "\<not> roster_step_throws s' (board s ! ?k) (ev_player e)"
  proof (cases "teams s ?tid")
    case None
    with st(11) have "teams s' = teams s" by simp
    with st(12) show ?thesis by (simp add: roster_step_throws_def)
  next
    case (Some team)
    with st(11) show ?thesis
      by (simp add: roster_step_throws_def object_get_def)
  qed
  with roster_step_throws_team [OF tid] show ?thesis by simp
qed

lemma findindex_from_first:
  "i < length xs \<Longrightarrow> P (xs ! i) \<Longrightarrow> \<forall>j<i. \<not> P (xs ! j) \<Longrightarrow>
     findindex_from P xs k = k + int i"
proof (induction xs arbitrary: i k)
  case Nil
  then show ?case by simp
next
  case (Cons x xs)
  show ?case
  proof (cases i)
    case 0
    with Cons.prems show ?thesis by simp
  next
    case (Suc m)
    with Cons.prems have "\<not> P x" by auto
    moreover from Suc Cons.prems have "m < length xs" "P (xs ! m)" "\<forall>j<m. \<not> P (xs ! j)"
      by auto
    from Cons.IH [OF this, of "k + 1"] have "findindex_from P xs (k + 1) = k + 1 + int m" .
    ultimately show ?thesis using Suc by simp
  qed
qed

lemma findindex_first:
  "i < length xs \<Longrightarrow> P (xs ! i) \<Longrightarrow> \<forall>j<i. \<not> P (xs ! j) \<Longrightarrow> findindex P xs = int i"
  using findindex_from_first [of i xs P 0] by (simp add: findindex_def)

lemma board_slot_findindex:
  "board_slot s n =
     (if findindex (\<lambda>p. pick_number p = n) (board s) = - 1 then None
      else Some (board s ! nat (findindex (\<lambda>p. pick_number p = n) (board s))))"
  by (simp add: board_slot_def find_findindex)

lemma processpick_findindex_same:
  assumes "processpick s e = Inr s'"
  shows "findindex (\<lambda>p. pick_number p = n) (board s') = findindex (\<lambda>p. pick_number p = n) (board s)"
proof -
  from processpick_Inr(2,4) [OF assms]
  have "map pick_number (board s') = map pick_number (board s)"
    by (simp add: map_pick_number_update)
  then show ?thesis by (rule findindex_pick_number)
qed

lemma processpick_slot_written:
  assumes "processpick s e = Inr s'"
  shows "board_slot s' (ev_pick_number e) =
           map_option (\<lambda>slot. slot\<lparr>player := Some (ev_player e)\<rparr>) (board_slot s (ev_pick_number e))"
    and "board_slot s (ev_pick_number e) \<noteq> None"
proof -
  note step = processpick_Inr [OF assms]
  from processpick_findindex_same [OF assms, of "ev_pick_number e"] step(1,2,4)
  show "board_slot s' (ev_pick_number e) =
           map_option (\<lambda>slot. slot\<lparr>player := Some (ev_player e)\<rparr>) (board_slot s (ev_pick_number e))"
    by (simp add: board_slot_findindex)
  from step(1) show "board_slot s (ev_pick_number e) \<noteq> None"
    by (simp add: board_slot_findindex)
qed

lemma roster_at_step:
  assumes "processpick s e = Inr s'" and "board_slot s (ev_pick_number e) = Some slot"
  shows "roster_at s' tid pos =
           roster_at s tid pos @
             (if tid = team_id slot \<and> teams s tid \<noteq> None \<and> pos = position (ev_player e)
              then [ev_player e] else [])"
proof -
  let ?k = "findindex (\<lambda>p. pick_number p = ev_pick_number e) (board s)"
  note step = processpick_Inr [OF assms(1)]
  from assms(2) step(1) have slot: "slot = board s ! nat ?k"
    by (simp add: board_slot_findindex)
  show ?thesis
  proof (cases "teams s (team_id slot)")
    case None
    with step(11) slot have "teams s' = teams s" by simp
    with None show ?thesis by (auto simp: roster_at_def)
  next
    case (Some team)
    with step(11) slot
    have "teams s' = (teams s)(team_id slot \<mapsto>
            team\<lparr>roster := (roster team)(position (ev_player e) \<mapsto>
              (case roster team (position (ev_player e)) of None \<Rightarrow> [] | Some ps \<Rightarrow> ps)
                @ [ev_player e])\<rparr>)"
      by simp
    with Some show ?thesis by (simp add: roster_at_def)
  qed
qed

lemma pick_update_same: "player x = v \<Longrightarrow> x\<lparr>player := v\<rparr> = (x::Pick)"
  by (cases x) simp

subsection \<open>The board along a sequence of pick events\<close>

lemma processpick_board:
  assumes "processpick s e = Inr s'" and "i < length (board s)"
  shows "length (board s') = length (board s)"
    and "pick_number (board s' ! i) = pick_number (board s ! i)"
    and "team_id (board s' ! i) = team_id (board s ! i)"
    and "player (board s ! i) \<noteq> None \<Longrightarrow> player (board s' ! i) \<noteq> None"
    and "pick_number (board s ! i) \<noteq> ev_pick_number e \<Longrightarrow> board s' ! i = board s ! i"
proof -
  let ?k = "nat (findindex (\<lambda>p. pick_number p = ev_pick_number e) (board s))"
  note step = processpick_Inr [OF assms(1)]
  from step(4) show "length (board s') = length (board s)" by simp
  from step(4) assms(2) show "pick_number (board s' ! i) = pick_number (board s ! i)"
    by (cases "i = ?k") simp_all
  from step(4) assms(2) show "team_id (board s' ! i) = team_id (board s ! i)"
    by (cases "i = ?k") simp_all
  from step(4) assms(2) show "player (board s ! i) \<noteq> None \<Longrightarrow> player (board s' ! i) \<noteq> None"
    by (cases "i = ?k") simp_all
  from step(3,4) assms(2)
  show "pick_number (board s ! i) \<noteq> ev_pick_number e \<Longrightarrow> board s' ! i = board s ! i"
    by (cases "i = ?k") auto
qed

lemma processpick_absent_slot:
  "board_slot s (ev_pick_number e) = None \<Longrightarrow> processpick s e = Inl TypeError"
  by (simp add: processpick_Inl board_slot_findindex split: if_splits)

lemma dispatch_pick_cases:
  "dispatch_pick s e = s \<or> processpick s e = Inr (dispatch_pick s e)"
  by (cases "processpick s e") (simp_all add: dispatch_pick_def)

lemma dispatch_pick_board:
  assumes "i < length (board s)"
  shows "length (board (dispatch_pick s e)) = length (board s)"
    and "pick_number (board (dispatch_pick s e) ! i) = pick_number (board s ! i)"
    and "team_id (board (dispatch_pick s e) ! i) = team_id (board s ! i)"
    and "player (board s ! i) \<noteq> None \<Longrightarrow> player (board (dispatch_pick s e) ! i) \<noteq> None"
    and "pick_number (board s ! i) \<noteq> ev_pick_number e \<Longrightarrow>
           board (dispatch_pick s e) ! i = board s ! i"
  using dispatch_pick_cases [of s e] processpick_board [of s e "dispatch_pick s e" i] assms
  by auto

lemma pick_trace_board:
  assumes "i < length (board s)" and "player (board s ! i) \<noteq> None"
    and "s' \<in> set (pick_trace s evs)"
  shows "length (board s') = length (board s) \<and>
         pick_number (board s' ! i) = pick_number (board s ! i) \<and>
         team_id (board s' ! i) = team_id (board s ! i) \<and>
         player (board s' ! i) \<noteq> None \<and>
         ((\<forall>e \<in> set evs. ev_pick_number e \<noteq> pick_number (board s ! i)) \<longrightarrow>
            player (board s' ! i) = player (board s ! i))"
  using assms
proof (induction evs arbitrary: s)
  case Nil
  then show ?case by simp
next
  case (Cons e es)
  show ?case
  proof (cases "s' = s")
    case True
    with Cons.prems show ?thesis by simp
  next
    case False
    let ?t = "dispatch_pick s e"
    from False Cons.prems(3) have mem: "s' \<in> set (pick_trace ?t es)" by simp
    note d = dispatch_pick_board [OF Cons.prems(1), of e]
    from d(1) Cons.prems(1) have lt: "i < length (board ?t)" by simp
    from d(4) Cons.prems(2) have ne: "player (board ?t ! i) \<noteq> None" by simp
    from Cons.IH [OF lt ne mem] d(1,2,3,5) show ?thesis by auto
  qed
qed

lemma pick_trace_head: "\<exists>rest. pick_trace s evs = s # rest"
  by (cases evs) simp_all

lemma dispatch_pick_index:
  "currentpickindex (dispatch_pick s e) = currentpickindex s \<or>
   currentpickindex (dispatch_pick s e) = ev_pick_number e"
  using dispatch_pick_cases [of s e] processpick_Inr(6) [of s e "dispatch_pick s e"] by auto

lemma pick_trace_sorted:
  "sorted (currentpickindex s # map ev_pick_number evs) \<Longrightarrow>
     sorted (map currentpickindex (pick_trace s evs))"
proof (induction evs arbitrary: s)
  case Nil
  then show ?case by simp
next
  case (Cons e es)
  let ?t = "dispatch_pick s e"
  from Cons.prems have le: "currentpickindex s \<le> ev_pick_number e"
    and rest: "sorted (ev_pick_number e # map ev_pick_number es)"
    and low: "\<forall>n \<in> set (map ev_pick_number es). currentpickindex s \<le> n"
    by auto
  from dispatch_pick_index [of s e] le have up: "currentpickindex s \<le> currentpickindex ?t" by auto
  from dispatch_pick_index [of s e] rest low
  have "sorted (currentpickindex ?t # map ev_pick_number es)" by auto
  from Cons.IH [OF this] have sorted_t: "sorted (map currentpickindex (pick_trace ?t es))" .
  from pick_trace_head [of ?t es] obtain rest where "pick_trace ?t es = ?t # rest" by blast
  with sorted_t up show ?case by auto
qed

subsection \<open>Counting a player in the pool and on the rosters\<close>

lemma count_id_append: "count_id pid (xs @ ys) = count_id pid xs + count_id pid ys"
  by (simp add: count_id_def)

lemma count_id_removed:
  "count_id pid (filter (\<lambda>q. player_id q \<noteq> x) ps) = (if pid = x then 0 else count_id pid ps)"
  by (induction ps) (auto simp: count_id_def)

lemma processpick_teams_dom:
  assumes "processpick s e = Inr s'" and "teams s tid \<noteq> None"
  shows "teams s' tid \<noteq> None"
  using processpick_Inr(11) [OF assms(1)] assms(2) by (auto split: option.splits)

lemma processpick_counts:
  assumes "processpick s e = Inr s'" and "board_slot s (ev_pick_number e) = Some slot"
  shows "count_id pid (availableplayers s') =
           (if pid = player_id (ev_player e) then 0 else count_id pid (availableplayers s))"
    and "count_id pid (roster_at s' tid pos) =
           count_id pid (roster_at s tid pos) +
             (if tid = team_id slot \<and> teams s tid \<noteq> None \<and> pos = position (ev_player e) \<and>
                 pid = player_id (ev_player e)
              then 1 else 0)"
proof -
  from processpick_Inr(5) [OF assms(1)]
  show "count_id pid (availableplayers s') =
           (if pid = player_id (ev_player e) then 0 else count_id pid (availableplayers s))"
    by (simp add: count_id_removed)
  from roster_at_step [OF assms, of tid pos]
  show "count_id pid (roster_at s' tid pos) =
           count_id pid (roster_at s tid pos) +
             (if tid = team_id slot \<and> teams s tid \<noteq> None \<and> pos = position (ev_player e) \<and>
                 pid = player_id (ev_player e)
              then 1 else 0)"
    by (simp add: count_id_append) (simp add: count_id_def)
qed

lemma partition_step:
  assumes "well_formed s" and "processpick s e = Inr s'"
    and "board_slot s (ev_pick_number e) = Some slot"
    and "\<forall>tid pos. count_id (player_id (ev_player e)) (roster_at s tid pos) = 0"
  shows "well_formed s' \<and>
         (\<forall>pid. known_player s pid \<longrightarrow> known_player s' pid) \<and>
         count_id (player_id (ev_player e)) (availableplayers s') = 0 \<and>
         count_id (player_id (ev_player e))
           (roster_at s' (team_id slot) (position (ev_player e))) = 1 \<and>
         (\<forall>tid pos. roster_at s' tid pos =
            roster_at s tid pos @
              (if tid = team_id slot \<and> pos = position (ev_player e)
               then [ev_player e] else []))"
proof -
  let ?x = "player_id (ev_player e)"
  let ?P = "position (ev_player e)"
  let ?k = "findindex (\<lambda>p. pick_number p = ev_pick_number e) (board s)"
  note st = processpick_Inr [OF assms(2)]
  note slot = assms(3)
  with st(1) have slot_eq: "slot = board s ! nat ?k" by (simp add: board_slot_findindex)
  with st(2) have "slot \<in> set (board s)" by simp
  with assms(1) have team: "teams s (team_id slot) \<noteq> None" by (simp add: well_formed_def)
  from assms(1) have inv: "partition_inv s" by (simp add: well_formed_def)
  have pool: "count_id pid (availableplayers s') = (if pid = ?x then 0 else count_id pid (availableplayers s))"
    for pid by (rule processpick_counts(1) [OF assms(2) slot])
  have ros: "count_id pid (roster_at s' tid pos) =
           count_id pid (roster_at s tid pos) +
             (if tid = team_id slot \<and> pos = ?P \<and> pid = ?x then 1 else 0)"
    for pid tid pos
    using processpick_counts(2) [OF assms(2) slot, of pid tid pos] team by auto
  have lists: "\<forall>tid pos. roster_at s' tid pos =
            roster_at s tid pos @ (if tid = team_id slot \<and> pos = ?P then [ev_player e] else [])"
    using roster_at_step [OF assms(2) slot] team by auto
  have fresh: "count_id ?x (roster_at s tid pos) = 0" for tid pos
    using assms(4) by blast
  have q1: "count_id pid (availableplayers s) \<le> 1" for pid
    using inv by (simp add: partition_inv_def)
  have q2: "count_id pid (roster_at s tid pos) \<le> 1" for pid tid pos
    using inv by (simp add: partition_inv_def)
  have q3: "0 < count_id pid (availableplayers s) \<Longrightarrow> count_id pid (roster_at s tid pos) = 0"
    for pid tid pos
    using inv unfolding partition_inv_def by blast
  have q4: "0 < count_id pid (roster_at s tid pos) \<Longrightarrow> 0 < count_id pid (roster_at s tid' pos')
              \<Longrightarrow> tid = tid' \<and> pos = pos'"
    for pid tid pos tid' pos'
    using inv unfolding partition_inv_def by blast
  have inv': "partition_inv s'"
    unfolding partition_inv_def
  proof (intro allI conjI impI)
    fix pid
    show "count_id pid (availableplayers s') \<le> 1" using q1 [of pid] by (simp add: pool)
  next
    fix pid tid pos
    show "count_id pid (roster_at s' tid pos) \<le> 1"
      using q2 [of pid tid pos] fresh [of tid pos] by (auto simp: ros)
  next
    fix pid tid pos
    assume "0 < count_id pid (availableplayers s')"
    then show "count_id pid (roster_at s' tid pos) = 0"
      using q3 [of pid tid pos] by (auto simp: pool ros split: if_splits)
  next
    fix pid tid pos tid' pos'
    assume a: "0 < count_id pid (roster_at s' tid pos) \<and> 0 < count_id pid (roster_at s' tid' pos')"
    show "tid = tid'"
    proof (cases "pid = ?x")
      case True
      with a fresh [of tid pos] fresh [of tid' pos'] show ?thesis
        by (auto simp: ros split: if_splits)
    next
      case False
      with a q4 [of pid tid pos tid' pos'] show ?thesis by (simp add: ros)
    qed
    show "pos = pos'"
    proof (cases "pid = ?x")
      case True
      with a fresh [of tid pos] fresh [of tid' pos'] show ?thesis
        by (auto simp: ros split: if_splits)
    next
      case False
      with a q4 [of pid tid pos tid' pos'] show ?thesis by (simp add: ros)
    qed
  qed
  have known': "\<forall>p \<in> set (board s'). teams s' (team_id p) \<noteq> None"
  proof
    fix p assume "p \<in> set (board s')"
    then obtain i where i: "i < length (board s')" and p: "p = board s' ! i"
      by (auto simp: in_set_conv_nth)
    from i st(4) have lt: "i < length (board s)" by simp
    from processpick_board(3) [OF assms(2) lt] p
    have "team_id p = team_id (board s ! i)" by simp
    moreover from lt have "board s ! i \<in> set (board s)" by simp
    with assms(1) have "teams s (team_id (board s ! i)) \<noteq> None" by (simp add: well_formed_def)
    ultimately show "teams s' (team_id p) \<noteq> None"
      using processpick_teams_dom [OF assms(2)] by simp
  qed
  have keep: "known_player s pid \<longrightarrow> known_player s' pid" for pid
  proof
    assume k: "known_player s pid"
    show "known_player s' pid"
    proof (cases "pid = ?x")
      case True
      have "0 < count_id pid (roster_at s' (team_id slot) ?P)" by (simp add: ros True)
      then show ?thesis unfolding known_player_def by blast
    next
      case False
      with k show ?thesis unfolding known_player_def by (simp add: pool ros)
    qed
  qed
  have gone: "count_id ?x (availableplayers s') = 0" by (simp add: pool)
  have once: "count_id ?x (roster_at s' (team_id slot) ?P) = 1" by (simp add: ros fresh)
  from inv' known' keep gone once lists show ?thesis by (simp add: well_formed_def)
qed

subsection \<open>The steps of the scenario\<close>

lemmas scenario_defs =
  scenario_loaded_def scenario_snapshot_def scenario_once_def scenario_twice_def
  scenario_second_def scenario_late_def scenario_overwritten_def orphan_state_def
  orphan_picked_def pick1_def pick2_def pick1_other_def pick99_def p1_def p2_def p3_def
  fetchinitialstate_fulfilled_def fetchinitialstate_pending_def initialstate_def

lemma scenario_step_once: "processpick scenario_loaded pick1 = Inr scenario_once"
  by (simp add: processpick_def findindex_def Let_def fun_eq_iff object_get_def
      object_prototype_keys_def scenario_defs)

lemma scenario_step_twice: "processpick scenario_once pick1 = Inr scenario_twice"
  by (simp add: processpick_def findindex_def Let_def fun_eq_iff object_get_def
      object_prototype_keys_def scenario_defs)

lemma scenario_step_second: "processpick scenario_loaded pick2 = Inr scenario_second"
  by (simp add: processpick_def findindex_def Let_def fun_eq_iff object_get_def
      object_prototype_keys_def scenario_defs)

lemma scenario_step_late: "processpick scenario_second pick1 = Inr scenario_late"
  by (simp add: processpick_def findindex_def Let_def fun_eq_iff object_get_def
      object_prototype_keys_def scenario_defs)

lemma scenario_step_overwritten: "processpick scenario_once pick1_other = Inr scenario_overwritten"
  by (simp add: processpick_def findindex_def Let_def fun_eq_iff object_get_def
      object_prototype_keys_def scenario_defs)

lemma scenario_step_orphan: "processpick orphan_state pick1 = Inr orphan_picked"
  by (simp add: processpick_def findindex_def Let_def fun_eq_iff object_get_def
      object_prototype_keys_def scenario_defs)

lemma scenario_step_absent: "processpick scenario_loaded pick99 = Inl TypeError"
  by (simp add: processpick_def findindex_def Let_def scenario_defs)

lemma scenario_step_inherited_team: "processpick inherited_team_state pick1 = Inl TypeError"
  by (simp add: processpick_def findindex_def Let_def object_get_def object_prototype_keys_def
      inherited_team_state_def scenario_defs)

lemma scenario_step_inherited_position:
  "processpick scenario_loaded pick1_inherited_position = Inl TypeError"
  by (simp add: processpick_def findindex_def Let_def object_get_def object_prototype_keys_def
      pick1_inherited_position_def scenario_defs)

lemma scenario_loaded_rosters: "roster_at scenario_loaded tid pos = []"
  by (simp add: roster_at_def scenario_defs)

lemma scenario_loaded_well_formed: "well_formed scenario_loaded"
proof -
  have "count_id pid (availableplayers scenario_loaded) \<le> 1" for pid
    by (auto simp: count_id_def scenario_defs)
  then have "partition_inv scenario_loaded"
    by (simp add: partition_inv_def scenario_loaded_rosters count_id_def)
  moreover have "\<forall>p \<in> set (board scenario_loaded). teams scenario_loaded (team_id p) \<noteq> None"
    by (simp add: scenario_defs)
  ultimately show ?thesis by (simp add: well_formed_def)
qed

section \<open>The claims\<close>

subsection \<open>C1: a replayed pick event\<close>

text \<open>
  Claim C1 says that a second delivery of the same pick event leaves Board, every team
  roster and AvailablePool unchanged. The reducer has no replay guard. What holds: after
  a first application, a second application of the same event succeeds and leaves the
  board, the pool, \<^verbatim>\<open>currentpickindex\<close> and the other scalar fields as they were; the
  roster list of the slot's team at the player's position gets the player appended once
  more, every other roster list is unchanged; when the slot's team is not in \<^verbatim>\<open>teams\<close>
  the whole state is unchanged.
\<close>

theorem processpick_replay:
  assumes "processpick s e = Inr s1"
  shows "\<exists>s2 slot.
           processpick s1 e = Inr s2 \<and>
           board_slot s1 (ev_pick_number e) = Some slot \<and>
           player slot = Some (ev_player e) \<and>
           board s2 = board s1 \<and>
           availableplayers s2 = availableplayers s1 \<and>
           currentpickindex s2 = currentpickindex s1 \<and>
           totalpicks s2 = totalpicks s1 \<and>
           selectedplayerdetails s2 = selectedplayerdetails s1 \<and>
           status s2 = status s1 \<and>
           error s2 = error s1 \<and>
           (\<forall>tid pos. roster_at s2 tid pos =
              roster_at s1 tid pos @
                (if tid = team_id slot \<and> teams s1 tid \<noteq> None \<and> pos = position (ev_player e)
                 then [ev_player e] else [])) \<and>
           (teams s1 (team_id slot) = None \<longrightarrow> s2 = s1)"
proof -
  let ?n = "ev_pick_number e"
  let ?k = "findindex (\<lambda>p. pick_number p = ?n) (board s)"
  note first = processpick_Inr [OF assms]
  from processpick_slot_written [OF assms]
  obtain slot where slot: "board_slot s1 ?n = Some slot" and filled: "player slot = Some (ev_player e)"
    by (cases "board_slot s ?n") auto
  have k1: "findindex (\<lambda>p. pick_number p = ?n) (board s1) = ?k"
    by (rule processpick_findindex_same [OF assms])
  with first(1) processpick_again_returns [OF assms] have "\<forall>x. processpick s1 e \<noteq> Inl x"
    by (simp add: processpick_Inl)
  then obtain s2 where second: "processpick s1 e = Inr s2"
    by (cases "processpick s1 e") auto
  note snd = processpick_Inr [OF second, unfolded k1]
  from slot k1 first(1) have slot_eq: "slot = board s1 ! nat ?k"
    by (simp add: board_slot_findindex)
  from snd(4) slot_eq filled have b: "board s2 = board s1"
    by (simp add: pick_update_same)
  from snd(5) first(5) have a: "availableplayers s2 = availableplayers s1" by simp
  from snd(6) first(6) have c: "currentpickindex s2 = currentpickindex s1" by simp
  have r: "\<forall>tid pos. roster_at s2 tid pos =
              roster_at s1 tid pos @
                (if tid = team_id slot \<and> teams s1 tid \<noteq> None \<and> pos = position (ev_player e)
                 then [ev_player e] else [])"
    using roster_at_step [OF second slot] by blast
  have "s2 = s1" if "teams s1 (team_id slot) = None"
  proof (rule draftstate.equality)
    from snd(11) slot_eq that show "teams s2 = teams s1" by simp
  qed (simp_all add: a b c snd(7-10))
  then have same: "teams s1 (team_id slot) = None \<longrightarrow> s2 = s1" by simp
  from second slot filled a b c snd(7-10) r same show ?thesis
    by (intro exI [of _ s2] exI [of _ slot] conjI) assumption+
qed

text \<open>The theorem at the scenario: the replay of \<open>pick1\<close> puts \<open>p1\<close> on T1's roster twice.\<close>

theorem processpick_replay_witness:
  "\<exists>s2. processpick scenario_once pick1 = Inr s2 \<and>
        board s2 = board scenario_once \<and>
        availableplayers s2 = availableplayers scenario_once \<and>
        roster_at s2 ''T1'' ''QB'' = [p1, p1] \<and>
        roster_at s2 ''T2'' ''QB'' = []"
proof -
  from processpick_replay [OF scenario_step_once]
  obtain s2 slot where step: "processpick scenario_once pick1 = Inr s2"
    and slot: "board_slot scenario_once (ev_pick_number pick1) = Some slot"
    and same: "board s2 = board scenario_once" "availableplayers s2 = availableplayers scenario_once"
    and rosters: "\<forall>tid pos. roster_at s2 tid pos =
              roster_at scenario_once tid pos @
                (if tid = team_id slot \<and> teams scenario_once tid \<noteq> None \<and> pos = position (ev_player pick1)
                 then [ev_player pick1] else [])"
    by blast
  from slot have t: "team_id slot = ''T1''"
    by (auto simp: board_slot_def scenario_defs)
  from rosters t have "roster_at s2 ''T1'' ''QB'' = [p1, p1]" "roster_at s2 ''T2'' ''QB'' = []"
    by (simp_all add: roster_at_def scenario_defs)
  with step same show ?thesis by blast
qed

text \<open>
  The claim fails at the scenario: after \<open>pick1\<close> slot 1 holds \<open>p1\<close>, and the second
  delivery changes T1's roster.
\<close>

theorem replay_counterexample:
  "processpick scenario_loaded pick1 = Inr scenario_once \<and>
   processpick scenario_once pick1 = Inr scenario_twice \<and>
   board_slot scenario_once 1 = Some \<lparr>pick_number = 1, team_id = ''T1'', player = Some p1\<rparr> \<and>
   roster_at scenario_once ''T1'' ''QB'' = [p1] \<and>
   roster_at scenario_twice ''T1'' ''QB'' = [p1, p1]"
  by (simp add: scenario_step_once scenario_step_twice)
     (simp add: board_slot_def roster_at_def scenario_defs)

subsection \<open>C2: the partition of the players\<close>

text \<open>
  Claim C2 says that after every application of \<^verbatim>\<open>processpick\<close> to a state reachable from a
  well-formed snapshot every known player is in exactly one of the pool and one team's
  roster, and never twice on a roster. A replayed pick puts the player on the roster a
  second time. What holds, for a well-formed state and an event whose pick number has a
  board slot, whose player is on no roster yet, and whose position does not read an
  inherited property from the roster of the slot's team: the step returns a well-formed
  state (each player id at most once in the pool, at most once in one roster list, never
  in both); every player known before is still known; the picked player is no longer in
  the pool and is once on the list of the slot's team for the player's position, to
  which the step appended the player; every other roster list is as before.
\<close>

theorem partition_preserved:
  assumes "well_formed s"
    and "board_slot s (ev_pick_number e) = Some slot"
    and "teams s (team_id slot) = Some team"
    and "object_get (roster team) (position (ev_player e)) \<noteq> Inherited"
    and "\<forall>tid pos. count_id (player_id (ev_player e)) (roster_at s tid pos) = 0"
  shows "\<exists>s'. processpick s e = Inr s' \<and>
           well_formed s' \<and>
           (\<forall>pid. known_player s pid \<longrightarrow> known_player s' pid) \<and>
           count_id (player_id (ev_player e)) (availableplayers s') = 0 \<and>
           count_id (player_id (ev_player e))
             (roster_at s' (team_id slot) (position (ev_player e))) = 1 \<and>
           (\<forall>tid pos. roster_at s' tid pos =
              roster_at s tid pos @
                (if tid = team_id slot \<and> pos = position (ev_player e)
                 then [ev_player e] else []))"
proof -
  from assms(3,4) have "\<not> roster_step_throws s slot (ev_player e)"
    by (simp add: roster_step_throws_def object_get_own)
  from processpick_returns [OF assms(2) this]
  obtain s' where step: "processpick s e = Inr s'" by blast
  from partition_step [OF assms(1) step assms(2) assms(5)] step show ?thesis by blast
qed

text \<open>The theorem at the first pick of the scenario.\<close>

theorem partition_preserved_witness:
  "\<exists>s'. processpick scenario_loaded pick1 = Inr s' \<and> well_formed s' \<and>
        known_player s' ''p2'' \<and>
        count_id ''p1'' (availableplayers s') = 0 \<and>
        roster_at s' ''T1'' ''QB'' = [p1] \<and>
        roster_at s' ''T2'' ''QB'' = []"
proof -
  have slot: "board_slot scenario_loaded (ev_pick_number pick1) =
                Some \<lparr>pick_number = 1, team_id = ''T1'', player = None\<rparr>"
    by (simp add: board_slot_def scenario_defs)
  have team: "teams scenario_loaded (team_id \<lparr>pick_number = 1, team_id = ''T1'', player = None\<rparr>) =
                Some \<lparr>roster = Map.empty\<rparr>"
    by (simp add: scenario_defs)
  have pos: "object_get (roster \<lparr>roster = Map.empty\<rparr>) (position (ev_player pick1)) \<noteq> Inherited"
    by (simp add: object_get_def object_prototype_keys_def scenario_defs)
  have fresh: "\<forall>tid pos. count_id (player_id (ev_player pick1)) (roster_at scenario_loaded tid pos) = 0"
    by (simp add: scenario_loaded_rosters count_id_def)
  have known: "known_player scenario_loaded ''p2''"
    by (simp add: known_player_def count_id_def scenario_defs)
  have ev: "player_id (ev_player pick1) = ''p1''" "position (ev_player pick1) = ''QB''"
    "ev_player pick1 = p1"
    by (simp_all add: scenario_defs)
  from partition_preserved [OF scenario_loaded_well_formed slot team pos fresh]
  obtain s' where "processpick scenario_loaded pick1 = Inr s'" "well_formed s'"
    "\<forall>pid. known_player scenario_loaded pid \<longrightarrow> known_player s' pid"
    "count_id (player_id (ev_player pick1)) (availableplayers s') = 0"
    "\<forall>tid pos. roster_at s' tid pos =
              roster_at scenario_loaded tid pos @
                (if tid = team_id \<lparr>pick_number = 1, team_id = ''T1'', player = None\<rparr> \<and>
                    pos = position (ev_player pick1)
                 then [ev_player pick1] else [])"
    by blast
  with known ev show ?thesis
    by (intro exI [of _ s']) (simp add: scenario_loaded_rosters)
qed

text \<open>
  The claim fails at the scenario: the loaded snapshot is well-formed, and after \<open>pick1\<close>
  delivered twice \<open>p1\<close> is on T1's roster twice.
\<close>

theorem partition_counterexample:
  "well_formed scenario_loaded \<and>
   processpick scenario_loaded pick1 = Inr scenario_once \<and>
   processpick scenario_once pick1 = Inr scenario_twice \<and>
   count_id ''p1'' (roster_at scenario_twice ''T1'' ''QB'') = 2 \<and>
   \<not> partition_inv scenario_twice"
proof -
  have two: "count_id ''p1'' (roster_at scenario_twice ''T1'' ''QB'') = 2"
    by (simp add: count_id_def roster_at_def scenario_defs)
  have "\<not> partition_inv scenario_twice"
  proof
    assume "partition_inv scenario_twice"
    then have "count_id ''p1'' (roster_at scenario_twice ''T1'' ''QB'') \<le> 1"
      unfolding partition_inv_def by blast
    with two show False by simp
  qed
  with two scenario_loaded_well_formed scenario_step_once scenario_step_twice
  show ?thesis by simp
qed

subsection \<open>C3: the current pick index\<close>

text \<open>
  Claim C3 says that \<^verbatim>\<open>currentpickindex\<close> never decreases, in any delivery order, and that
  an event whose pick number is below the current value fills its slot without changing
  the index. Step 4 assigns the pick number with no comparison. What holds: along a
  sequence of events whose pick numbers are in non-decreasing order and not below the
  starting index, the index never decreases; and for every event whose pick number has a
  board slot and whose roster step does not read an inherited property, the step
  returns, fills the slot and sets the index to the pick number of the event, lower than
  the current value or not.
\<close>

theorem index_follows_events:
  "(sorted (currentpickindex s # map ev_pick_number evs) \<longrightarrow>
      sorted (map currentpickindex (pick_trace s evs))) \<and>
   (\<forall>slot. board_slot s (ev_pick_number e) = Some slot \<and>
           \<not> roster_step_throws s slot (ev_player e) \<longrightarrow>
      (\<exists>s'. processpick s e = Inr s' \<and>
            dispatch_pick s e = s' \<and>
            currentpickindex s' = ev_pick_number e \<and>
            board_slot s' (ev_pick_number e) = Some (slot\<lparr>player := Some (ev_player e)\<rparr>)))"
proof (intro conjI impI allI)
  assume "sorted (currentpickindex s # map ev_pick_number evs)"
  then show "sorted (map currentpickindex (pick_trace s evs))" by (rule pick_trace_sorted)
next
  fix slot
  assume a: "board_slot s (ev_pick_number e) = Some slot \<and>
             \<not> roster_step_throws s slot (ev_player e)"
  then obtain s' where step: "processpick s e = Inr s'"
    using processpick_returns [of s e slot] by blast
  from step have "dispatch_pick s e = s'" by (simp add: dispatch_pick_def)
  moreover from step have "currentpickindex s' = ev_pick_number e" by (rule processpick_Inr(6))
  moreover from processpick_slot_written(1) [OF step] a
  have "board_slot s' (ev_pick_number e) = Some (slot\<lparr>player := Some (ev_player e)\<rparr>)" by simp
  ultimately show "\<exists>s'. processpick s e = Inr s' \<and> dispatch_pick s e = s' \<and>
            currentpickindex s' = ev_pick_number e \<and>
            board_slot s' (ev_pick_number e) = Some (slot\<lparr>player := Some (ev_player e)\<rparr>)"
    using step by blast
qed

text \<open>
  The theorem at the scenario: \<open>pick1\<close> and \<open>pick2\<close> delivered in order, and \<open>pick1\<close>
  delivered late, after \<open>pick2\<close>, when the index is 2.
\<close>

theorem index_follows_events_witness:
  "sorted (map currentpickindex (pick_trace scenario_loaded [pick1, pick2])) \<and>
   currentpickindex scenario_second = 2 \<and>
   (\<exists>s'. processpick scenario_second pick1 = Inr s' \<and> currentpickindex s' = 1 \<and>
         board_slot s' 1 = Some \<lparr>pick_number = 1, team_id = ''T1'', player = Some p1\<rparr>)"
proof -
  have pre: "sorted (currentpickindex scenario_loaded # map ev_pick_number [pick1, pick2])"
    by (simp add: scenario_defs)
  from index_follows_events [of scenario_loaded "[pick1, pick2]" pick1] pre
  have trace: "sorted (map currentpickindex (pick_trace scenario_loaded [pick1, pick2]))"
    by blast
  have slot: "board_slot scenario_second (ev_pick_number pick1) =
                Some \<lparr>pick_number = 1, team_id = ''T1'', player = None\<rparr>"
    by (simp add: board_slot_def scenario_defs)
  have ok: "\<not> roster_step_throws scenario_second
               \<lparr>pick_number = 1, team_id = ''T1'', player = None\<rparr> (ev_player pick1)"
    by (simp add: roster_step_throws_def object_get_def object_prototype_keys_def scenario_defs)
  have ev: "ev_pick_number pick1 = 1" "ev_player pick1 = p1" by (simp_all add: scenario_defs)
  from index_follows_events [of scenario_second "[]" pick1] slot ok
  obtain s' where "processpick scenario_second pick1 = Inr s'"
    "currentpickindex s' = ev_pick_number pick1"
    "board_slot s' (ev_pick_number pick1) =
       Some (\<lparr>pick_number = 1, team_id = ''T1'', player = None\<rparr>\<lparr>player := Some (ev_player pick1)\<rparr>)"
    by blast
  with ev have "\<exists>s'. processpick scenario_second pick1 = Inr s' \<and> currentpickindex s' = 1 \<and>
         board_slot s' 1 = Some \<lparr>pick_number = 1, team_id = ''T1'', player = Some p1\<rparr>"
    by (intro exI [of _ s']) simp
  moreover have "currentpickindex scenario_second = 2" by (simp add: scenario_defs)
  ultimately show ?thesis using trace by blast
qed

text \<open>
  The claim fails at the scenario when \<open>pick2\<close> arrives before \<open>pick1\<close>: the index goes
  from 2 down to 1.
\<close>

theorem index_regress_counterexample:
  "processpick scenario_loaded pick2 = Inr scenario_second \<and>
   processpick scenario_second pick1 = Inr scenario_late \<and>
   currentpickindex scenario_second = 2 \<and>
   ev_pick_number pick1 = 1 \<and>
   currentpickindex scenario_late = 1"
  by (simp add: scenario_step_second scenario_step_late) (simp add: scenario_defs)

subsection \<open>C4: a pick number that is not on the board\<close>

text \<open>
  Claim C4 says that an event whose pick number matches no board slot is rejected with
  the state unchanged and with no exception escaping the reducer. At the scenario, the
  event for pick 99 finds no slot and the reducer throws: step 1 is guarded by the index
  test, the read of the slot's team in step 3 is not.
\<close>

theorem absent_slot_throws:
  "board_slot scenario_loaded (ev_pick_number pick99) = None \<and>
   processpick scenario_loaded pick99 = Inl TypeError"
  by (simp add: scenario_step_absent) (simp add: board_slot_def scenario_defs)

subsection \<open>C5: a history fetch that completes after a newer selection\<close>



subsection \<open>C6: a filled slot\<close>

text \<open>
  Claim C6 says that once a slot's player is set, no later pick event changes it to
  another value or back to empty. Step 1 overwrites the slot whatever it holds. What
  holds for a slot \<open>i\<close> with a player, in every state the store goes through while a
  sequence of pick events is dispatched: the board keeps its length, the slot keeps its
  pick number and team and a non-empty player, and the player is the same as long as no
  event of the sequence carries the slot's pick number. And an event that carries the
  slot's pick number, when no earlier slot of the board carries that number and the
  roster step does not read an inherited property, returns a state whose board differs
  in slot \<open>i\<close> only, which now holds the event's player, whatever it held before.
\<close>

theorem slot_never_emptied:
  assumes "i < length (board s)" and "player (board s ! i) \<noteq> None"
    and "s' \<in> set (pick_trace s evs)"
  shows "length (board s') = length (board s) \<and>
         pick_number (board s' ! i) = pick_number (board s ! i) \<and>
         team_id (board s' ! i) = team_id (board s ! i) \<and>
         player (board s' ! i) \<noteq> None \<and>
         ((\<forall>e \<in> set evs. ev_pick_number e \<noteq> pick_number (board s ! i)) \<longrightarrow>
            player (board s' ! i) = player (board s ! i)) \<and>
         (\<forall>e. ev_pick_number e = pick_number (board s ! i) \<and>
              (\<forall>j<i. pick_number (board s ! j) \<noteq> pick_number (board s ! i)) \<and>
              \<not> roster_step_throws s (board s ! i) (ev_player e) \<longrightarrow>
            (\<exists>s1. processpick s e = Inr s1 \<and>
                  dispatch_pick s e = s1 \<and>
                  board s1 = (board s)[i := (board s ! i)\<lparr>player := Some (ev_player e)\<rparr>] \<and>
                  player (board s1 ! i) = Some (ev_player e)))"
proof -
  have "\<exists>s1. processpick s e = Inr s1 \<and> dispatch_pick s e = s1 \<and>
             board s1 = (board s)[i := (board s ! i)\<lparr>player := Some (ev_player e)\<rparr>] \<and>
             player (board s1 ! i) = Some (ev_player e)"
    if a: "ev_pick_number e = pick_number (board s ! i) \<and>
           (\<forall>j<i. pick_number (board s ! j) \<noteq> pick_number (board s ! i)) \<and>
           \<not> roster_step_throws s (board s ! i) (ev_player e)" for e
  proof -
    from a assms(1)
    have k: "findindex (\<lambda>p. pick_number p = ev_pick_number e) (board s) = int i"
      by (intro findindex_first) auto
    then have slot: "board_slot s (ev_pick_number e) = Some (board s ! i)"
      by (simp add: board_slot_findindex)
    from processpick_returns [OF slot] a
    obtain s1 where step: "processpick s e = Inr s1" by blast
    from processpick_Inr(4) [OF step] k
    have b: "board s1 = (board s)[i := (board s ! i)\<lparr>player := Some (ev_player e)\<rparr>]" by simp
    with assms(1) have "player (board s1 ! i) = Some (ev_player e)" by simp
    moreover from step have "dispatch_pick s e = s1" by (simp add: dispatch_pick_def)
    ultimately show ?thesis using step b by blast
  qed
  with pick_trace_board [OF assms] show ?thesis by blast
qed

text \<open>
  The theorem after \<open>pick1\<close>, for slot 1: the event \<open>pick2\<close> leaves \<open>p1\<close> in it, and a
  second event for pick 1 that carries \<open>p3\<close> puts \<open>p3\<close> in it.
\<close>

theorem slot_never_emptied_witness:
  "length (board (dispatch_pick scenario_once pick2)) = 3 \<and>
   player (board (dispatch_pick scenario_once pick2) ! 0) = Some p1 \<and>
   (\<exists>s1. processpick scenario_once pick1_other = Inr s1 \<and> player (board s1 ! 0) = Some p3)"
proof -
  have h1: "0 < length (board scenario_once)" by (simp add: scenario_defs)
  have h2: "player (board scenario_once ! 0) \<noteq> None" by (simp add: scenario_defs)
  have h3: "dispatch_pick scenario_once pick2 \<in> set (pick_trace scenario_once [pick2])" by simp
  note inst = slot_never_emptied [OF h1 h2 h3]
  have other: "\<forall>e \<in> set [pick2]. ev_pick_number e \<noteq> pick_number (board scenario_once ! 0)"
    by (simp add: scenario_defs)
  have "length (board scenario_once) = 3" "player (board scenario_once ! 0) = Some p1"
    by (simp_all add: scenario_defs)
  with inst other have kept: "length (board (dispatch_pick scenario_once pick2)) = 3"
    "player (board (dispatch_pick scenario_once pick2) ! 0) = Some p1"
    by simp_all
  have same: "ev_pick_number pick1_other = pick_number (board scenario_once ! 0)"
    by (simp add: scenario_defs)
  have ok: "\<not> roster_step_throws scenario_once (board scenario_once ! 0) (ev_player pick1_other)"
    by (simp add: roster_step_throws_def object_get_def object_prototype_keys_def scenario_defs)
  have ev: "ev_player pick1_other = p3" by (simp add: scenario_defs)
  from inst same ok
  obtain s1 where "processpick scenario_once pick1_other = Inr s1"
    "player (board s1 ! 0) = Some (ev_player pick1_other)"
    by blast
  with ev have "\<exists>s1. processpick scenario_once pick1_other = Inr s1 \<and> player (board s1 ! 0) = Some p3"
    by (intro exI [of _ s1]) simp
  with kept show ?thesis by blast
qed

text \<open>
  The claim fails at the scenario: slot 1 holds \<open>p1\<close> after \<open>pick1\<close>, and a second event
  for pick 1 that carries \<open>p3\<close> replaces it.
\<close>

theorem slot_overwritten_counterexample:
  "processpick scenario_loaded pick1 = Inr scenario_once \<and>
   processpick scenario_once pick1_other = Inr scenario_overwritten \<and>
   player (board scenario_once ! 0) = Some p1 \<and>
   player (board scenario_overwritten ! 0) = Some p3 \<and>
   p3 \<noteq> p1"
  by (simp add: scenario_step_once scenario_step_overwritten) (simp add: scenario_defs)

subsection \<open>C7: a failed snapshot load\<close>

text \<open>
  Claim C7: when the initial-state fetch fails, the status becomes \<^verbatim>\<open>failed\<close> and the
  error message is stored, while board, teams, pool, \<^verbatim>\<open>currentpickindex\<close> and
  \<^verbatim>\<open>totalpicks\<close> (and the selection) stay as they were; on a first load, that is from the
  initial state through \<^verbatim>\<open>pending\<close>, they are empty.
\<close>

theorem snapshot_failure_atomic:
  "status (fetchinitialstate_rejected s m) = Failed \<and>
   error (fetchinitialstate_rejected s m) = m \<and>
   board (fetchinitialstate_rejected s m) = board s \<and>
   teams (fetchinitialstate_rejected s m) = teams s \<and>
   availableplayers (fetchinitialstate_rejected s m) = availableplayers s \<and>
   currentpickindex (fetchinitialstate_rejected s m) = currentpickindex s \<and>
   totalpicks (fetchinitialstate_rejected s m) = totalpicks s \<and>
   selectedplayerdetails (fetchinitialstate_rejected s m) = selectedplayerdetails s \<and>
   fetchinitialstate_rejected (fetchinitialstate_pending initialstate) m =
     \<lparr> board = [], teams = Map.empty, availableplayers = [], currentpickindex = 0,
       totalpicks = 0, selectedplayerdetails = None, status = Failed, error = m \<rparr>"
  by (simp add: fetchinitialstate_rejected_def fetchinitialstate_pending_def initialstate_def)

subsection \<open>C8: a slot whose team is unknown\<close>

text \<open>
  Claim C8 says that for an event whose slot exists but whose team is not a known team,
  the roster mutation is skipped, the slot and the pool are still updated, and the
  omission is reported. The reducer skips the roster silently. What holds when the read
  \<^verbatim>\<open>state.teams[teamid]\<close> gives \<^verbatim>\<open>undefined\<close>, that is when the team id is neither a team of
  the state nor the name of an inherited property: the step returns, leaves \<^verbatim>\<open>teams\<close> as
  it is, writes the player into the slot, removes the player from the pool, sets
  \<^verbatim>\<open>currentpickindex\<close>, and reports nothing: it throws no exception and leaves \<^verbatim>\<open>status\<close>
  and \<^verbatim>\<open>error\<close> as they are. This holds whether the slot was empty or not.
\<close>

theorem unknown_team_silent:
  assumes "board_slot s (ev_pick_number e) = Some slot"
    and "object_get (teams s) (team_id slot) = Absent"
  shows "\<exists>s'. processpick s e = Inr s' \<and>
           teams s' = teams s \<and>
           board_slot s' (ev_pick_number e) = Some (slot\<lparr>player := Some (ev_player e)\<rparr>) \<and>
           availableplayers s' =
             filter (\<lambda>p. player_id p \<noteq> player_id (ev_player e)) (availableplayers s) \<and>
           count_id (player_id (ev_player e)) (availableplayers s') = 0 \<and>
           currentpickindex s' = ev_pick_number e \<and>
           status s' = status s \<and>
           error s' = error s \<and>
           \<not> reported s (processpick s e)"
proof -
  let ?k = "findindex (\<lambda>p. pick_number p = ev_pick_number e) (board s)"
  from assms(1) have found: "?k \<noteq> - 1" and slot: "slot = board s ! nat ?k"
    by (auto simp: board_slot_findindex split: if_splits)
  from assms(2) have none: "teams s (team_id slot) = None" by (simp add: object_get_None)
  from assms(2) have "\<not> roster_step_throws s slot (ev_player e)"
    by (simp add: roster_step_throws_def)
  from processpick_returns [OF assms(1) this]
  obtain s' where step: "processpick s e = Inr s'" by blast
  note st = processpick_Inr [OF step]
  from st(11) slot none have t: "teams s' = teams s" by simp
  from processpick_slot_written(1) [OF step] assms(1)
  have b: "board_slot s' (ev_pick_number e) = Some (slot\<lparr>player := Some (ev_player e)\<rparr>)" by simp
  from st(5) have c: "count_id (player_id (ev_player e)) (availableplayers s') = 0"
    by (simp add: count_id_def)
  from step st(10) have r: "\<not> reported s (processpick s e)" by (simp add: reported_def)
  from step t b st(5) c st(6) st(9) st(10) r show ?thesis
    by (intro exI [of _ s'] conjI) assumption+
qed

text \<open>The theorem at a board whose only slot belongs to the unknown team T9.\<close>

theorem unknown_team_silent_witness:
  "\<not> reported orphan_state (processpick orphan_state pick1) \<and>
   (\<exists>s'. processpick orphan_state pick1 = Inr s' \<and> teams s' = teams orphan_state \<and>
         board_slot s' 1 = Some \<lparr>pick_number = 1, team_id = ''T9'', player = Some p1\<rparr> \<and>
         count_id ''p1'' (availableplayers s') = 0)"
proof -
  have h1: "board_slot orphan_state (ev_pick_number pick1) =
              Some \<lparr>pick_number = 1, team_id = ''T9'', player = None\<rparr>"
    by (simp add: board_slot_def scenario_defs)
  have h2: "object_get (teams orphan_state)
              (team_id \<lparr>pick_number = 1, team_id = ''T9'', player = None\<rparr>) = Absent"
    by (simp add: object_get_def object_prototype_keys_def scenario_defs)
  have "ev_pick_number pick1 = 1" "ev_player pick1 = p1" "player_id p1 = ''p1''"
    by (simp_all add: scenario_defs)
  with unknown_team_silent [OF h1 h2] show ?thesis by auto
qed

text \<open>
  The claim fails there: the slot exists and is empty, T9 is unknown, and the step
  returns a state with the same \<^verbatim>\<open>error\<close> field and throws nothing.
\<close>

theorem unreported_counterexample:
  "processpick orphan_state pick1 = Inr orphan_picked \<and>
   board_slot orphan_state 1 = Some \<lparr>pick_number = 1, team_id = ''T9'', player = None\<rparr> \<and>
   teams orphan_state ''T9'' = None \<and>
   error orphan_picked = error orphan_state \<and>
   \<not> reported orphan_state (processpick orphan_state pick1)"
  by (simp add: scenario_step_orphan reported_def) (simp add: board_slot_def scenario_defs)

subsection \<open>C9: what a selection is seeded with\<close>

text \<open>
  Claim C9 says that select(player_id) seeds the selection with the record found in the
  pool or, for a drafted player, with the record found on a roster. The pending handler
  searches the pool only. What holds: the selection is set to \<^verbatim>\<open>loading = true\<close>,
  \<^verbatim>\<open>history = null\<close> and a player that is a record of the pool with the requested id, or
  no player at all when the pool has no record with that id, whatever the rosters hold;
  nothing else of the state changes.
\<close>

theorem selection_seed_pool_only:
  "\<exists>seed.
     fetchplayerhistory_pending s a =
       s\<lparr>selectedplayerdetails :=
           Some \<lparr> details_player = seed, history = None, loading = True, details_error = None \<rparr>\<rparr> \<and>
     (case seed of
        None \<Rightarrow> \<forall>p \<in> set (availableplayers s). player_id p \<noteq> meta_arg a
      | Some p \<Rightarrow> p \<in> set (availableplayers s) \<and> player_id p = meta_arg a)"
proof -
  let ?seed = "List.find (\<lambda>p. player_id p = meta_arg a) (availableplayers s)"
  have "fetchplayerhistory_pending s a =
       s\<lparr>selectedplayerdetails :=
           Some \<lparr> details_player = ?seed, history = None, loading = True, details_error = None \<rparr>\<rparr>"
    by (simp add: fetchplayerhistory_pending_def)
  moreover have "case ?seed of
        None \<Rightarrow> \<forall>p \<in> set (availableplayers s). player_id p \<noteq> meta_arg a
      | Some p \<Rightarrow> p \<in> set (availableplayers s) \<and> player_id p = meta_arg a"
    by (rule find_cases)
  ultimately show ?thesis by blast
qed

text \<open>The theorem at the loaded scenario, for \<open>p2\<close>, who is in the pool.\<close>

theorem selection_seed_pool_only_witness:
  "\<exists>seed.
     fetchplayerhistory_pending scenario_loaded select_p2 =
       scenario_loaded\<lparr>selectedplayerdetails :=
           Some \<lparr> details_player = seed, history = None, loading = True, details_error = None \<rparr>\<rparr> \<and>
     seed \<noteq> None \<and> seed \<noteq> Some p1 \<and> seed \<noteq> Some p3"
proof -
  from selection_seed_pool_only [of scenario_loaded select_p2]
  obtain seed where eq: "fetchplayerhistory_pending scenario_loaded select_p2 =
       scenario_loaded\<lparr>selectedplayerdetails :=
           Some \<lparr> details_player = seed, history = None, loading = True, details_error = None \<rparr>\<rparr>"
    and seed: "case seed of
        None \<Rightarrow> \<forall>p \<in> set (availableplayers scenario_loaded). player_id p \<noteq> meta_arg select_p2
      | Some p \<Rightarrow> p \<in> set (availableplayers scenario_loaded) \<and> player_id p = meta_arg select_p2"
    by blast
  from seed have "seed \<noteq> None \<and> seed \<noteq> Some p1 \<and> seed \<noteq> Some p3"
    by (cases seed) (auto simp: scenario_defs select_p2_def)
  with eq show ?thesis by blast
qed

text \<open>
  The claim fails after \<open>pick1\<close>: \<open>p1\<close> is on T1's roster and no longer in the pool, and
  selecting \<open>p1\<close> seeds the selection with no player.
\<close>

theorem selection_seed_counterexample:
  "roster_at scenario_once ''T1'' ''QB'' = [p1] \<and>
   availableplayers scenario_once = [p2, p3] \<and>
   meta_arg select_p1 = player_id p1 \<and>
   selectedplayerdetails (fetchplayerhistory_pending scenario_once select_p1) =
     Some \<lparr> details_player = None, history = None, loading = True, details_error = None \<rparr>"
  by (simp add: fetchplayerhistory_pending_def roster_at_def select_p1_def scenario_defs)

subsection \<open>C10: a completion that finds no selection\<close>

text \<open>
  Claim C10: when a history fetch completes, fulfilled or rejected, while
  \<^verbatim>\<open>selectedplayerdetails\<close> is null, the handler leaves the whole state as it is.
\<close>

theorem completion_without_selection:
  assumes "selectedplayerdetails s = None"
  shows "fetchplayerhistory_fulfilled s a = s \<and> fetchplayerhistory_rejected s b = s"
  using assms by (simp add: fetchplayerhistory_fulfilled_def fetchplayerhistory_rejected_def)

text \<open>The theorem after \<^verbatim>\<open>clearselectedplayer\<close> ran while the fetch for \<open>p1\<close> was in flight.\<close>

theorem completion_without_selection_witness:
  "fetchplayerhistory_fulfilled
       (clearselectedplayer (fetchplayerhistory_pending scenario_loaded select_p1)) history_p1
     = clearselectedplayer (fetchplayerhistory_pending scenario_loaded select_p1) \<and>
   fetchplayerhistory_rejected
       (clearselectedplayer (fetchplayerhistory_pending scenario_loaded select_p1))
       \<lparr> meta_arg = ''p1'', payload = Some ''timeout'' \<rparr>
     = clearselectedplayer (fetchplayerhistory_pending scenario_loaded select_p1)"
  using completion_without_selection
    [of "clearselectedplayer (fetchplayerhistory_pending scenario_loaded select_p1)" history_p1
        "\<lparr> meta_arg = ''p1'', payload = Some ''timeout'' \<rparr>"]
  by (simp add: clearselectedplayer_def)

end
